theory Spec2Isabelle
  imports Complex_Main "HOL-Library.AList" "HOL-Library.Multiset"
begin

section \<open>Conventions\<close>

text \<open>
  JavaScript numbers are modelled by exact numbers: counters and millisecond clocks by
  \<open>nat\<close>/\<open>int\<close>, confidences and scores by \<open>real\<close>.  A JavaScript \<open>Map\<close> is an
  association list in insertion order (\<open>Map.set\<close> on a present key replaces the value
  in place, on an absent key appends: \<open>AList.update\<close>); a JavaScript \<open>Set\<close> is a
  duplicate-free list in insertion order.  \<open>Array.prototype.sort\<close> is stable, so a
  sort with comparator \<open>(a, b) => b.score - a.score\<close> is the stable insertion sort
  \<open>sort_key\<close> on the negated score.  \<open>Date.now()\<close> and the random part of
  generated ids are inputs of the operations that read them.
\<close>

definition set_add :: "'a \<Rightarrow> 'a list \<Rightarrow> 'a list" where
  "set_add x xs = (if x \<in> set xs then xs else xs @ [x])"

definition set_delete :: "'a \<Rightarrow> 'a list \<Rightarrow> 'a list" where
  "set_delete x xs = filter (\<lambda>y. y \<noteq> x) xs"

section \<open>Agent pool and task scheduler (advanced-coordinator.ts)\<close>

record AgentCapability =
  cap_name :: string
  cap_confidence :: real

record Agent =
  agent_id :: string
  agent_capabilities :: "AgentCapability list"

record Task =
  task_id :: string
  task_requiredSkills :: "string list"

datatype priority = High | Medium | Low

text \<open>
  The fields of \<open>AdvancedAgentCoordinator\<close>: the agent pool, the three task queues,
  the counters of the metrics and \<open>maxConcurrentTasks\<close>.  The running average
  \<open>averageTaskDuration\<close>, the message queue and the result cache play no part in
  scheduling and are left out.
\<close>

record Coordinator =
  agents :: "(string \<times> Agent) list"
  activeAgents :: "string list"
  idleAgents :: "string list"
  busyAgents :: "(string \<times> nat) list"
  queue_high :: "Task list"
  queue_medium :: "Task list"
  queue_low :: "Task list"
  totalTasks :: nat
  completedTasks :: nat
  failedTasks :: nat
  agentUtilization :: "(string \<times> real) list"
  maxConcurrentTasks :: int

definition new_coordinator :: "int \<Rightarrow> Coordinator" where
  "new_coordinator maxTasks =
     \<lparr> agents = [], activeAgents = [], idleAgents = [], busyAgents = [],
       queue_high = [], queue_medium = [], queue_low = [],
       totalTasks = 0, completedTasks = 0, failedTasks = 0,
       agentUtilization = [], maxConcurrentTasks = maxTasks \<rparr>"

definition registerAgent :: "Agent \<Rightarrow> Coordinator \<Rightarrow> Coordinator" where
  "registerAgent agent c =
     c\<lparr> agents := AList.update (agent_id agent) agent (agents c),
        idleAgents := set_add (agent_id agent) (idleAgents c),
        agentUtilization := AList.update (agent_id agent) 0 (agentUtilization c) \<rparr>"

definition unregisterAgent :: "string \<Rightarrow> Coordinator \<Rightarrow> Coordinator" where
  "unregisterAgent agentId c =
     c\<lparr> agents := AList.delete agentId (agents c),
        activeAgents := set_delete agentId (activeAgents c),
        idleAgents := set_delete agentId (idleAgents c),
        busyAgents := AList.delete agentId (busyAgents c),
        agentUtilization := AList.delete agentId (agentUtilization c) \<rparr>"

definition markAgentBusy :: "string \<Rightarrow> Coordinator \<Rightarrow> Coordinator" where
  "markAgentBusy agentId c =
     (let currentCount = (case map_of (busyAgents c) agentId of Some n \<Rightarrow> n | None \<Rightarrow> 0)
      in c\<lparr> idleAgents := set_delete agentId (idleAgents c),
            activeAgents := set_add agentId (activeAgents c),
            busyAgents := AList.update agentId (currentCount + 1) (busyAgents c) \<rparr>)"

definition markAgentIdle :: "string \<Rightarrow> Coordinator \<Rightarrow> Coordinator" where
  "markAgentIdle agentId c =
     (let currentCount = (case map_of (busyAgents c) agentId of Some n \<Rightarrow> n | None \<Rightarrow> 0)
      in if currentCount \<le> 1
         then c\<lparr> busyAgents := AList.delete agentId (busyAgents c),
                 activeAgents := set_delete agentId (activeAgents c),
                 idleAgents := set_add agentId (idleAgents c) \<rparr>
         else c\<lparr> busyAgents := AList.update agentId (currentCount - 1) (busyAgents c) \<rparr>)"

subsection \<open>Agent selection\<close>

definition hasRequiredSkills :: "Agent \<Rightarrow> Task \<Rightarrow> bool" where
  "hasRequiredSkills agent task =
     list_all (\<lambda>skill. list_ex (\<lambda>cap. cap_name cap = skill) (agent_capabilities agent))
       (task_requiredSkills task)"

definition capabilityScore :: "Agent \<Rightarrow> Task \<Rightarrow> real" where
  "capabilityScore agent task =
     foldl (\<lambda>sum cap. sum + cap_confidence cap) 0
       (filter (\<lambda>cap. cap_name cap \<in> set (task_requiredSkills task)) (agent_capabilities agent))"

definition agentScore :: "Coordinator \<Rightarrow> Task \<Rightarrow> Agent \<Rightarrow> real" where
  "agentScore c task agent =
     (if \<not> hasRequiredSkills agent task then - 1
      else let utilization = (case map_of (agentUtilization c) (agent_id agent) of
                                Some u \<Rightarrow> u | None \<Rightarrow> 0)
           in 0 + capabilityScore agent task - utilization * (1 / 10))"

definition availableAgents :: "Coordinator \<Rightarrow> Agent list" where
  "availableAgents c = List.map_filter (map_of (agents c)) (idleAgents c)"

definition getBestAgentForTask :: "Coordinator \<Rightarrow> Task \<Rightarrow> Agent option" where
  "getBestAgentForTask c task =
     (if availableAgents c = [] then None
      else let scoredAgents = map (\<lambda>agent. (agent, agentScore c task agent)) (availableAgents c)
           in case sort_key (\<lambda>p. - snd p) scoredAgents of
                [] \<Rightarrow> None
              | best # _ \<Rightarrow> if snd best > 0 then Some (fst best) else None)"

subsection \<open>Dispatch\<close>

text \<open>
  \<open>high.shift() || medium.shift() || low.shift()\<close>: the head of the first non-empty
  queue, removed from it.
\<close>

definition shiftTask :: "Coordinator \<Rightarrow> (Task \<times> Coordinator) option" where
  "shiftTask c =
     (case queue_high c of
        t # ts \<Rightarrow> Some (t, c\<lparr> queue_high := ts \<rparr>)
      | [] \<Rightarrow>
     (case queue_medium c of
        t # ts \<Rightarrow> Some (t, c\<lparr> queue_medium := ts \<rparr>)
      | [] \<Rightarrow>
     (case queue_low c of
        t # ts \<Rightarrow> Some (t, c\<lparr> queue_low := ts \<rparr>)
      | [] \<Rightarrow> None)))"

text \<open>
  \<open>processTasks\<close> up to its \<open>await\<close>: the coordinator after the synchronous part, and
  the execution it started, if any (the agent's id and the task).
\<close>

definition processTasks :: "Coordinator \<Rightarrow> Coordinator \<times> (string \<times> Task) option" where
  "processTasks c =
     (if int (length (busyAgents c)) \<ge> maxConcurrentTasks c then (c, None)
      else case shiftTask c of
             None \<Rightarrow> (c, None)
           | Some (task, c1) \<Rightarrow>
               (case getBestAgentForTask c1 task of
                  None \<Rightarrow> (c1\<lparr> queue_medium := queue_medium c1 @ [task] \<rparr>, None)
                | Some agent \<Rightarrow> (markAgentBusy (agent_id agent) c1, Some (agent_id agent, task))))"

definition pushTask :: "priority \<Rightarrow> Task \<Rightarrow> Coordinator \<Rightarrow> Coordinator" where
  "pushTask p task c =
     (case p of
        High \<Rightarrow> c\<lparr> queue_high := queue_high c @ [task] \<rparr>
      | Medium \<Rightarrow> c\<lparr> queue_medium := queue_medium c @ [task] \<rparr>
      | Low \<Rightarrow> c\<lparr> queue_low := queue_low c @ [task] \<rparr>)"

definition submitTask :: "Task \<Rightarrow> priority \<Rightarrow> Coordinator \<Rightarrow> Coordinator \<times> (string \<times> Task) option" where
  "submitTask task p c = processTasks ((pushTask p task c)\<lparr> totalTasks := totalTasks c + 1 \<rparr>)"

definition updateMetrics :: "bool \<Rightarrow> Coordinator \<Rightarrow> Coordinator" where
  "updateMetrics success c =
     (if success then c\<lparr> completedTasks := completedTasks c + 1 \<rparr>
      else c\<lparr> failedTasks := failedTasks c + 1 \<rparr>)"

text \<open>
  The rest of \<open>processTasks\<close> after the \<open>await\<close> of an execution on \<open>agentId\<close> has
  settled (\<open>success\<close>: \<open>executeTask\<close> returned, otherwise it threw): the metrics, the
  \<open>finally\<close> block's \<open>markAgentIdle\<close>, and the next \<open>processTasks\<close>.
\<close>

definition taskSettled :: "string \<Rightarrow> bool \<Rightarrow> Coordinator \<Rightarrow> Coordinator \<times> (string \<times> Task) option" where
  "taskSettled agentId success c = processTasks (markAgentIdle agentId (updateMetrics success c))"

text \<open>
  A scheduler run: the coordinator, the executions in flight (each a suspended
  \<open>processTasks\<close> holding its agent and task) and the log of dispatches in order.
\<close>

record Sched =
  coord :: Coordinator
  running :: "(string \<times> Task) list"
  dispatched :: "(string \<times> Task) list"

datatype event =
    Register Agent
  | Unregister string
  | Submit Task priority
  | Settle nat bool

definition started :: "Sched \<Rightarrow> Coordinator \<times> (string \<times> Task) option \<Rightarrow> Sched" where
  "started s r =
     (case snd r of
        None \<Rightarrow> s\<lparr> coord := fst r \<rparr>
      | Some d \<Rightarrow> s\<lparr> coord := fst r, running := running s @ [d], dispatched := dispatched s @ [d] \<rparr>)"

fun step :: "Sched \<Rightarrow> event \<Rightarrow> Sched" where
  "step s (Register agent) = s\<lparr> coord := registerAgent agent (coord s) \<rparr>"
| "step s (Unregister agentId) = s\<lparr> coord := unregisterAgent agentId (coord s) \<rparr>"
| "step s (Submit task p) = started s (submitTask task p (coord s))"
| "step s (Settle i success) =
     (if i < length (running s)
      then started (s\<lparr> running := take i (running s) @ drop (Suc i) (running s) \<rparr>)
             (taskSettled (fst (running s ! i)) success (coord s))
      else s)"

definition run :: "Sched \<Rightarrow> event list \<Rightarrow> Sched" where
  "run s evs = foldl step s evs"

definition new_sched :: "int \<Rightarrow> Sched" where
  "new_sched maxTasks = \<lparr> coord = new_coordinator maxTasks, running = [], dispatched = [] \<rparr>"

subsection \<open>Example pool\<close>

definition ex_agentA :: Agent where
  "ex_agentA = \<lparr> agent_id = ''A'', agent_capabilities = [\<lparr> cap_name = ''x'', cap_confidence = 9 / 10 \<rparr>] \<rparr>"

definition ex_agentB :: Agent where
  "ex_agentB = \<lparr> agent_id = ''B'', agent_capabilities = [\<lparr> cap_name = ''x'', cap_confidence = 9 / 10 \<rparr>] \<rparr>"

definition ex_task :: "string \<Rightarrow> Task" where
  "ex_task i = \<lparr> task_id = i, task_requiredSkills = [''x''] \<rparr>"


definition ex_trace_priority :: "event list" where
  "ex_trace_priority =
     [Register ex_agentA, Submit (ex_task ''T0'') Medium, Submit (ex_task ''M'') Medium,
      Submit (ex_task ''H'') High, Settle 0 True]"

subsection \<open>The pool invariant and permitted runs\<close>

definition pool_inv :: "Coordinator \<Rightarrow> bool" where
  "pool_inv c \<longleftrightarrow>
     set (idleAgents c) \<inter> set (activeAgents c) = {}
     \<and> set (idleAgents c) \<union> set (activeAgents c) = fst ` set (agents c)"

text \<open>
  A run is permitted when no agent is registered again, and none is unregistered, while
  it is in the active set.
\<close>

fun permitted :: "Sched \<Rightarrow> event \<Rightarrow> bool" where
  "permitted s (Register agent) = (agent_id agent \<notin> set (activeAgents (coord s)))"
| "permitted s (Unregister agentId) = (agentId \<notin> set (activeAgents (coord s)))"
| "permitted s (Submit task p) = True"
| "permitted s (Settle i success) = True"

fun permitted_run :: "Sched \<Rightarrow> event list \<Rightarrow> bool" where
  "permitted_run s [] = True"
| "permitted_run s (e # es) = (permitted s e \<and> permitted_run (step s e) es)"

text \<open>
  The invariant of permitted runs: the pool invariant, every agent stored under its own
  id, and the executions in flight on distinct agents of the active set.
\<close>

definition sched_inv :: "Coordinator \<Rightarrow> (string \<times> Task) list \<Rightarrow> bool" where
  "sched_inv c rs \<longleftrightarrow>
     pool_inv c
     \<and> (\<forall>p \<in> set (agents c). agent_id (snd p) = fst p)
     \<and> distinct (map fst rs)
     \<and> fst ` set rs \<subseteq> set (activeAgents c)"

section \<open>Memory store (class MemoryManager)\<close>

datatype memory_type = Fact | Solution | Instruction | Experience | Code

record MemoryMetadata =
  meta_source :: string
  meta_context :: "string list"
  meta_tags :: "string list"
  meta_relatedMemories :: "string list"
  meta_confidence :: real

record Memory =
  mem_id :: string
  mem_type :: memory_type
  mem_content :: string
  mem_embedding :: "real list option"
  mem_metadata :: MemoryMetadata
  mem_timestamp :: int
  mem_accessCount :: nat
  mem_relevanceScore :: real


text \<open>
  Of \<open>MemoryConfig\<close> the manager reads \<open>enabled\<close> and \<open>maxMemories\<close>; the
  latter is taken to be an integer.
\<close>

record MemoryConfig =
  cfg_enabled :: bool
  cfg_maxMemories :: int

record MemoryManager =
  memories :: "(string \<times> Memory) list"
  mem_config :: MemoryConfig
  embeddings :: "(string \<times> real list) list"

definition new_manager :: "MemoryConfig \<Rightarrow> MemoryManager" where
  "new_manager cfg = \<lparr> memories = [], mem_config = cfg, embeddings = [] \<rparr>"







text \<open>\<open>import\<close>: the body of its \<open>forEach\<close>, and the loop.\<close>

definition import_one :: "Memory \<Rightarrow> MemoryManager \<Rightarrow> MemoryManager" where
  "import_one x m =
     (let m1 = m\<lparr> memories := AList.update (mem_id x) x (memories m) \<rparr>
      in case mem_embedding x of
           Some e \<Rightarrow> m1\<lparr> embeddings := AList.update (mem_id x) e (embeddings m1) \<rparr>
         | None \<Rightarrow> m1)"

definition import_memories :: "Memory list \<Rightarrow> MemoryManager \<Rightarrow> MemoryManager" where
  "import_memories ms m = foldl (\<lambda>m' x. import_one x m') m ms"

subsection \<open>Retrieval\<close>

















subsection \<open>Example store\<close>

definition ex_meta :: MemoryMetadata where
  "ex_meta = \<lparr> meta_source = ''test'', meta_context = [], meta_tags = [],
               meta_relatedMemories = [], meta_confidence = 1 \<rparr>"


definition ex_memory :: "string \<Rightarrow> int \<Rightarrow> nat \<Rightarrow> Memory" where
  "ex_memory i ts n =
     \<lparr> mem_id = i, mem_type = Fact, mem_content = ''note'', mem_embedding = None,
       mem_metadata = ex_meta, mem_timestamp = ts, mem_accessCount = n,
       mem_relevanceScore = 1 / 2 \<rparr>"


definition ex_cfg :: "int \<Rightarrow> MemoryConfig" where
  "ex_cfg n = \<lparr> cfg_enabled = True, cfg_maxMemories = n \<rparr>"



section \<open>Inference coordinator (class InferenceCoordinator)\<close>

record InferenceRequest =
  req_prompt :: string
  req_maxTokens :: int
  req_stopSequences :: "string list option"
  req_temperature :: "real option"
  req_topK :: "int option"
  req_topP :: "real option"
  req_stream :: "bool option"

datatype finish_reason = FinishStop | FinishLength | FinishError

record InferenceTimings =
  promptEvalTime :: real
  tokenGenTime :: real
  totalTime :: real
  tokensPerSecond :: real

record InferenceResponse =
  resp_text :: string
  resp_tokens :: nat
  resp_promptTokens :: nat
  resp_completionTokens :: nat
  resp_timings :: InferenceTimings
  resp_finishReason :: finish_reason

datatype load_balancing = RoundRobin | LeastLoaded | ByPriority

record CoordinatorConfig =
  maxEngines :: int
  loadBalancing :: load_balancing
  enableCaching :: bool
  cacheSize :: int

record InferenceJob =
  job_id :: string
  job_request :: InferenceRequest
  job_priority :: int
  job_createdAt :: int

datatype engine_state = Idle | Loading | Processing | Failed

record EngineStatus =
  es_id :: string
  es_modelName :: string
  es_status :: engine_state
  es_currentJob :: "string option"
  es_processedJobs :: nat
  es_averageLatency :: real
  es_lastActive :: int

record CachedResponse =
  cached_response :: InferenceResponse
  cached_timestamp :: int

record CoordinatorMetrics =
  totalJobs :: nat
  completedJobs :: nat
  failedJobs :: nat
  cacheHits :: nat
  cacheMisses :: nat
  met_averageLatency :: real
  met_tokensPerSecond :: real

text \<open>
  The cache key is the JSON text of the five fields named in \<open>getCacheKey\<close>; the model
  keeps the five values themselves.
\<close>

type_synonym cache_key = "string \<times> int \<times> real option \<times> int option \<times> real option"

text \<open>
  A \<open>GGMLEngine\<close> object is identified by the number of engine objects created before
  it (\<open>engineCounter\<close>); the engine's own work is outside the model, the outcome of
  \<open>engine.infer\<close> is an input of the step that resumes after it.
\<close>

record InferenceCoordinator =
  ic_config :: CoordinatorConfig
  engines :: "(string \<times> nat) list"
  engineStatus :: "(string \<times> EngineStatus) list"
  jobQueue :: "InferenceJob list"
  responseCache :: "(cache_key \<times> CachedResponse) list"
  ic_metrics :: CoordinatorMetrics
  isRunning :: bool
  engineCounter :: nat

definition new_inference_coordinator :: "CoordinatorConfig \<Rightarrow> InferenceCoordinator" where
  "new_inference_coordinator cfg =
     \<lparr> ic_config = cfg, engines = [], engineStatus = [], jobQueue = [], responseCache = [],
       ic_metrics = \<lparr> totalJobs = 0, completedJobs = 0, failedJobs = 0, cacheHits = 0,
                      cacheMisses = 0, met_averageLatency = 0, met_tokensPerSecond = 0 \<rparr>,
       isRunning = False, engineCounter = 0 \<rparr>"

text \<open>The decimal numeral of \<open>`engine_${i}`\<close>.\<close>

function decimal :: "nat \<Rightarrow> string" where
  "decimal n = (if n < 10 then [char_of (48 + n)]
                else decimal (n div 10) @ [char_of (48 + n mod 10)])"
  by pat_completeness auto
termination
  by (relation "measure (\<lambda>n. n)") auto

definition addEngine :: "string \<Rightarrow> int \<Rightarrow> InferenceCoordinator \<Rightarrow> nat \<Rightarrow> InferenceCoordinator" where
  "addEngine modelPath now c i =
     (let engineId = ''engine_'' @ decimal i;
          engine = engineCounter c
      in c\<lparr> engines := AList.update engineId engine (engines c),
            engineStatus := AList.update engineId
               \<lparr> es_id = engineId, es_modelName = modelPath, es_status = Idle,
                 es_currentJob = None, es_processedJobs = 0, es_averageLatency = 0,
                 es_lastActive = now \<rparr> (engineStatus c),
            engineCounter := engineCounter c + 1 \<rparr>)"

definition initialize :: "string \<Rightarrow> int \<Rightarrow> int \<Rightarrow> InferenceCoordinator \<Rightarrow> InferenceCoordinator" where
  "initialize modelPath engineCount now c =
     (let count = min engineCount (maxEngines (ic_config c))
      in (foldl (addEngine modelPath now) c [0 ..< nat count])\<lparr> isRunning := True \<rparr>)"

definition getEngineId :: "InferenceCoordinator \<Rightarrow> nat \<Rightarrow> string" where
  "getEngineId c engine =
     (case List.find (\<lambda>p. snd p = engine) (engines c) of Some p \<Rightarrow> fst p | None \<Rightarrow> '''')"

definition updateEngineStatus ::
  "string \<Rightarrow> engine_state \<Rightarrow> string option \<Rightarrow> int \<Rightarrow> InferenceCoordinator \<Rightarrow> InferenceCoordinator" where
  "updateEngineStatus engineId status jobId now c =
     (case map_of (engineStatus c) engineId of
        Some es \<Rightarrow>
          c\<lparr> engineStatus := AList.update engineId
                (es\<lparr> es_status := status, es_currentJob := jobId, es_lastActive := now \<rparr>)
                (engineStatus c) \<rparr>
      | None \<Rightarrow> c)"

definition getCacheKey :: "InferenceRequest \<Rightarrow> cache_key" where
  "getCacheKey request =
     (req_prompt request, req_maxTokens request, req_temperature request,
      req_topK request, req_topP request)"

definition cacheResponse ::
  "InferenceRequest \<Rightarrow> InferenceResponse \<Rightarrow> int \<Rightarrow> InferenceCoordinator \<Rightarrow> InferenceCoordinator" where
  "cacheResponse request response now c =
     (let key = getCacheKey request;
          cache1 = (if int (length (responseCache c)) \<ge> cacheSize (ic_config c)
                    then (case responseCache c of
                            [] \<Rightarrow> responseCache c
                          | oldest # _ \<Rightarrow> AList.delete (fst oldest) (responseCache c))
                    else responseCache c)
      in c\<lparr> responseCache := AList.update key
               \<lparr> cached_response = response, cached_timestamp = now \<rparr> cache1 \<rparr>)"

subsection \<open>Engine selection\<close>

definition findRoundRobin :: "InferenceCoordinator \<Rightarrow> nat option" where
  "findRoundRobin c =
     (case List.find (\<lambda>p. es_status (snd p) = Idle) (engineStatus c) of
        Some p \<Rightarrow> map_of (engines c) (fst p)
      | None \<Rightarrow> None)"

text \<open>
  The two other policies scan all engines, keeping the best engine found and its load
  (\<open>None\<close> for the initial \<open>Infinity\<close>).
\<close>

definition findLeastLoaded :: "InferenceCoordinator \<Rightarrow> nat option" where
  "findLeastLoaded c =
     fst (foldl (\<lambda>(bestEngine, lowestLoad) p.
            if es_status (snd p) = Idle
               \<and> (case lowestLoad of None \<Rightarrow> True | Some l \<Rightarrow> es_processedJobs (snd p) < l)
            then (map_of (engines c) (fst p), Some (es_processedJobs (snd p)))
            else (bestEngine, lowestLoad))
          (None, None) (engineStatus c))"

definition findByPriority :: "InferenceCoordinator \<Rightarrow> nat option" where
  "findByPriority c =
     fst (foldl (\<lambda>(bestEngine, lowestLatency) p.
            if es_status (snd p) = Idle
               \<and> (case lowestLatency of None \<Rightarrow> True | Some l \<Rightarrow> es_averageLatency (snd p) < l)
            then (map_of (engines c) (fst p), Some (es_averageLatency (snd p)))
            else (bestEngine, lowestLatency))
          (None, None) (engineStatus c))"

definition findAvailableEngine :: "InferenceCoordinator \<Rightarrow> nat option" where
  "findAvailableEngine c =
     (case loadBalancing (ic_config c) of
        RoundRobin \<Rightarrow> findRoundRobin c
      | LeastLoaded \<Rightarrow> findLeastLoaded c
      | ByPriority \<Rightarrow> findByPriority c)"

subsection \<open>Jobs\<close>

text \<open>
  An execution in flight: \<open>executeJob\<close> suspended at \<open>await engine.infer\<close>, holding its
  job, the engine's id and the start time.
\<close>

record JobFrame =
  frame_job :: InferenceJob
  frame_engineId :: string
  frame_startTime :: int


definition executeJob_begin ::
  "InferenceJob \<Rightarrow> nat \<Rightarrow> int \<Rightarrow> InferenceCoordinator \<Rightarrow> JobFrame \<times> InferenceCoordinator" where
  "executeJob_begin job engine now c =
     (let engineId = getEngineId c engine
      in (\<lparr> frame_job = job, frame_engineId = engineId, frame_startTime = now \<rparr>,
          updateEngineStatus engineId Processing (Some (job_id job)) now c))"


definition countProcessed :: "string \<Rightarrow> real \<Rightarrow> InferenceCoordinator \<Rightarrow> InferenceCoordinator" where
  "countProcessed engineId latency c =
     (case map_of (engineStatus c) engineId of
        Some es \<Rightarrow>
          c\<lparr> engineStatus := AList.update engineId
                (es\<lparr> es_processedJobs := es_processedJobs es + 1,
                     es_averageLatency :=
                       (es_averageLatency es * (real (es_processedJobs es + 1) - 1) + latency)
                         / real (es_processedJobs es + 1) \<rparr>)
                (engineStatus c) \<rparr>
      | None \<Rightarrow> c)"


definition enqueueJob :: "InferenceJob \<Rightarrow> InferenceCoordinator \<Rightarrow> InferenceCoordinator" where
  "enqueueJob job c =
     c\<lparr> jobQueue := takeWhile (\<lambda>j. \<not> job_priority job > job_priority j) (jobQueue c)
                     @ job # dropWhile (\<lambda>j. \<not> job_priority job > job_priority j) (jobQueue c) \<rparr>"

datatype submit_result = CacheHit InferenceResponse | Started JobFrame | Queued InferenceJob

text \<open>
  \<open>submit\<close> up to its first suspension: a cached response, or the execution it started
  on an engine (to be resumed by \<open>executeJob_end\<close>), or the job it queued.  \<open>jobId\<close> is
  the generated id, \<open>now\<close> the clock.
\<close>

definition submit ::
  "InferenceRequest \<Rightarrow> int \<Rightarrow> string \<Rightarrow> int \<Rightarrow> InferenceCoordinator
     \<Rightarrow> submit_result \<times> InferenceCoordinator" where
  "submit request priority jobId now c =
     (let hit = (if enableCaching (ic_config c)
                 then (case map_of (responseCache c) (getCacheKey request) of
                         Some cached \<Rightarrow>
                           if now - cached_timestamp cached < 300000 then Some cached else None
                       | None \<Rightarrow> None)
                 else None)
      in case hit of
           Some cached \<Rightarrow>
             (CacheHit (cached_response cached),
              c\<lparr> ic_metrics := (ic_metrics c)\<lparr> cacheHits := cacheHits (ic_metrics c) + 1 \<rparr> \<rparr>)
         | None \<Rightarrow>
             (let c1 = (if enableCaching (ic_config c)
                        then c\<lparr> ic_metrics := (ic_metrics c)\<lparr> cacheMisses := cacheMisses (ic_metrics c) + 1 \<rparr> \<rparr>
                        else c);
                  job = \<lparr> job_id = jobId, job_request = request, job_priority = priority,
                          job_createdAt = now \<rparr>;
                  c2 = c1\<lparr> ic_metrics := (ic_metrics c1)\<lparr> totalJobs := totalJobs (ic_metrics c1) + 1 \<rparr> \<rparr>
              in case findAvailableEngine c2 of
                   Some engine \<Rightarrow>
                     (let r = executeJob_begin job engine now c2 in (Started (fst r), snd r))
                 | None \<Rightarrow> (Queued job, enqueueJob job c2)))"


subsection \<open>Runs of the inference coordinator\<close>

text \<open>
  \<open>cachedFor\<close>: the test of \<open>submit\<close> for a cached response younger than the TTL.
  The events of a run: a \<open>submit\<close> call, a turn of the \<open>processQueue\<close> loop, and an
  execution in flight that settles.  An event is quiet when it is not an execution
  returning a response (the only event that writes to the response cache).
\<close>

definition cachedFor :: "InferenceCoordinator \<Rightarrow> InferenceRequest \<Rightarrow> int \<Rightarrow> bool" where
  "cachedFor c request now \<longleftrightarrow>
     enableCaching (ic_config c)
     \<and> (case map_of (responseCache c) (getCacheKey request) of
          Some cached \<Rightarrow> now - cached_timestamp cached < 300000
        | None \<Rightarrow> False)"




subsection \<open>Example coordinator\<close>

definition ex_ic_config :: CoordinatorConfig where
  "ex_ic_config = \<lparr> maxEngines = 3, loadBalancing = RoundRobin, enableCaching = True,
                    cacheSize = 1000 \<rparr>"

definition ex_request :: "string \<Rightarrow> InferenceRequest" where
  "ex_request p = \<lparr> req_prompt = p, req_maxTokens = 16, req_stopSequences = None,
                    req_temperature = None, req_topK = None, req_topP = None,
                    req_stream = None \<rparr>"


definition ex_ic :: InferenceCoordinator where
  "ex_ic = initialize ''model'' 3 0 (new_inference_coordinator ex_ic_config)"



section \<open>Message router (class AgentNetworkCoordinator)\<close>


datatype message_type = Request | Response | Notification | KnowledgeShare












subsection \<open>Example router\<close>




section \<open>Verification: agent selection and dispatch order\<close>

subsection \<open>The head of a stable sort\<close>







subsection \<open>C1: a queued high-priority task and earlier medium tasks\<close>

text \<open>
  Whenever the coordinator is below capacity and no idle agent suits the task at the head
  of the high queue, \<open>processTasks\<close> moves that task to the back of the medium queue.
\<close>

lemma processTasks_requeues_high:
  assumes "int (length (busyAgents c)) < maxConcurrentTasks c"
    and "queue_high c = t # ts"
    and "getBestAgentForTask (c\<lparr> queue_high := ts \<rparr>) t = None"
  shows "processTasks c
           = (c\<lparr> queue_high := ts, queue_medium := queue_medium c @ [t] \<rparr>, None)"
  using assms by (simp add: processTasks_def shiftTask_def)

text \<open>
  C1 (the source departs from it).  The claim: a high-priority task submitted while no
  agent is idle is dispatched, once an agent is available, before any medium or low task
  enqueued earlier.  In the source \<open>processTasks\<close> takes the task off the high queue,
  finds no agent, and pushes it to the back of the medium queue.  The run below registers
  one agent, keeps it busy with \<open>T0\<close>, submits \<open>M\<close> (medium) and then \<open>H\<close> (high);
  after the third event no agent is idle and \<open>M\<close> waits in the medium queue; after the
  fourth \<open>H\<close> stands behind \<open>M\<close> in the medium queue; when \<open>T0\<close> settles, \<open>M\<close> is
  dispatched and \<open>H\<close> is still queued.
\<close>

theorem high_task_overtaken:
  "(let s3 = run (new_sched 10) (take 3 ex_trace_priority);
        s4 = run (new_sched 10) (take 4 ex_trace_priority);
        s5 = run (new_sched 10) ex_trace_priority
    in idleAgents (coord s3) = []
     \<and> map task_id (queue_medium (coord s3)) = [''M'']
     \<and> map task_id (queue_high (coord s4)) = []
     \<and> map task_id (queue_medium (coord s4)) = [''M'', ''H'']
     \<and> map (\<lambda>d. (fst d, task_id (snd d))) (dispatched s5) = [(''A'', ''T0''), (''A'', ''M'')]
     \<and> map task_id (queue_medium (coord s5)) = [''H''])"
  by code_simp

subsection \<open>C2: agent selection\<close>




section \<open>Verification: the agent pool\<close>

lemma set_set_add [simp]: "set (set_add x xs) = insert x (set xs)"
  by (auto simp: set_add_def)

lemma set_set_delete [simp]: "set (set_delete x xs) = set xs - {x}"
  by (auto simp: set_delete_def)

lemma dom_alist_delete: "fst ` set (AList.delete k al) = fst ` set al - {k}"
  by (induction al) auto

lemma set_alist_delete_subset: "set (AList.delete k al) \<subseteq> set al"
  by (induction al) auto

lemma set_alist_update_subset: "set (AList.update k v al) \<subseteq> insert (k, v) (set al)"
  by (induction al) auto

lemma pool_inv_registerAgent:
  "pool_inv c \<Longrightarrow> agent_id a \<notin> set (activeAgents c) \<Longrightarrow> pool_inv (registerAgent a c)"
  by (auto simp: pool_inv_def registerAgent_def dom_update)

lemma pool_inv_unregisterAgent: "pool_inv c \<Longrightarrow> pool_inv (unregisterAgent i c)"
  by (auto simp: pool_inv_def unregisterAgent_def dom_alist_delete)

lemma pool_inv_markAgentBusy:
  "pool_inv c \<Longrightarrow> i \<in> fst ` set (agents c) \<Longrightarrow> pool_inv (markAgentBusy i c)"
  by (auto simp: pool_inv_def markAgentBusy_def Let_def)

lemma pool_inv_markAgentIdle:
  "pool_inv c \<Longrightarrow> i \<in> fst ` set (agents c) \<Longrightarrow> pool_inv (markAgentIdle i c)"
  by (auto simp: pool_inv_def markAgentIdle_def Let_def)

lemma getBest_available:
  assumes "getBestAgentForTask c t = Some a"
  shows "\<exists>k \<in> set (idleAgents c). map_of (agents c) k = Some a"
proof -
  have ne: "availableAgents c \<noteq> []"
    using assms by (auto simp: getBestAgentForTask_def split: if_splits)
  define xs where "xs = map (\<lambda>agent. (agent, agentScore c t agent)) (availableAgents c)"
  obtain b bs where srt: "sort_key (\<lambda>p. - snd p) xs = b # bs" and a: "a = fst b"
    using assms ne by (auto simp: getBestAgentForTask_def Let_def xs_def split: list.splits if_splits)
  have "b \<in> set (sort_key (\<lambda>p. - snd p) xs)" using srt by simp
  then have "b \<in> set xs" by simp
  then have "a \<in> set (availableAgents c)" using a by (auto simp: xs_def)
  then show ?thesis by (auto simp: availableAgents_def List.map_filter_def)
qed

lemma shiftTask_pool:
  "shiftTask c = Some (t, c1) \<Longrightarrow>
     agents c1 = agents c \<and> idleAgents c1 = idleAgents c \<and> activeAgents c1 = activeAgents c"
  by (auto simp: shiftTask_def split: list.splits)

lemma processTasks_cases:
  assumes "processTasks c = (c', d)"
  shows "(d = None \<and> agents c' = agents c \<and> idleAgents c' = idleAgents c
            \<and> activeAgents c' = activeAgents c)
       \<or> (\<exists>c1 a t. d = Some (agent_id a, t) \<and> c' = markAgentBusy (agent_id a) c1
            \<and> agents c1 = agents c \<and> idleAgents c1 = idleAgents c
            \<and> activeAgents c1 = activeAgents c
            \<and> (\<exists>k \<in> set (idleAgents c). map_of (agents c) k = Some a))"
proof (cases "int (length (busyAgents c)) \<ge> maxConcurrentTasks c")
  case True
  then show ?thesis using assms by (simp add: processTasks_def)
next
  case False
  show ?thesis
  proof (cases "shiftTask c")
    case None
    then show ?thesis using assms False by (simp add: processTasks_def)
  next
    case (Some p)
    obtain t c1 where p: "p = (t, c1)" by (cases p)
    note pool = shiftTask_pool [OF Some [unfolded p]]
    show ?thesis
    proof (cases "getBestAgentForTask c1 t")
      case None
      then show ?thesis using assms False Some p pool by (auto simp: processTasks_def)
    next
      case (Some a)
      from getBest_available [OF Some] pool
      have "\<exists>k \<in> set (idleAgents c). map_of (agents c) k = Some a" by simp
      moreover have "d = Some (agent_id a, t)" "c' = markAgentBusy (agent_id a) c1"
        using assms False \<open>shiftTask c = Some p\<close> p Some by (auto simp: processTasks_def)
      ultimately show ?thesis using pool by blast
    qed
  qed
qed

lemma sched_inv_pool_eq:
  "sched_inv c rs \<Longrightarrow> agents c' = agents c \<Longrightarrow> idleAgents c' = idleAgents c \<Longrightarrow>
     activeAgents c' = activeAgents c \<Longrightarrow> sched_inv c' rs"
  by (simp add: sched_inv_def pool_inv_def)

lemma sched_inv_processTasks:
  assumes inv: "sched_inv c rs" and p: "processTasks c = (c', d)"
  shows "sched_inv c' (rs @ (case d of None \<Rightarrow> [] | Some x \<Rightarrow> [x]))"
proof -
  from processTasks_cases [OF p] show ?thesis
  proof (elim disjE exE conjE)
    assume "d = None" "agents c' = agents c" "idleAgents c' = idleAgents c"
      "activeAgents c' = activeAgents c"
    then show ?thesis using inv by (simp add: sched_inv_pool_eq)
  next
    fix c1 a t
    assume d: "d = Some (agent_id a, t)" and c': "c' = markAgentBusy (agent_id a) c1"
      and eqs: "agents c1 = agents c" "idleAgents c1 = idleAgents c" "activeAgents c1 = activeAgents c"
      and av: "\<exists>k \<in> set (idleAgents c). map_of (agents c) k = Some a"
    from av obtain k where k: "k \<in> set (idleAgents c)" "map_of (agents c) k = Some a" by blast
    have kin: "(k, a) \<in> set (agents c)" using k(2) by (rule map_of_SomeD)
    then have id: "agent_id a = k" using inv by (auto simp: sched_inv_def)
    have reg: "agent_id a \<in> fst ` set (agents c)" using kin id by force
    have idle: "agent_id a \<in> set (idleAgents c)" using k(1) id by simp
    have nact: "agent_id a \<notin> set (activeAgents c)"
      using idle inv by (auto simp: sched_inv_def pool_inv_def)
    have inv1: "sched_inv c1 rs" using inv eqs by (simp add: sched_inv_pool_eq)
    have "pool_inv c'" unfolding c'
      using inv1 reg eqs by (intro pool_inv_markAgentBusy) (simp_all add: sched_inv_def)
    moreover have "agents c' = agents c" "activeAgents c' = set_add (agent_id a) (activeAgents c)"
      using eqs by (simp_all add: c' markAgentBusy_def Let_def)
    moreover have "agent_id a \<notin> fst ` set rs" using nact inv by (auto simp: sched_inv_def)
    ultimately show ?thesis using inv d by (auto simp: sched_inv_def)
  qed
qed

lemma sched_inv_step:
  assumes inv: "sched_inv (coord s) (running s)" and ok: "permitted s e"
  shows "sched_inv (coord (step s e)) (running (step s e))"
proof (cases e)
  case (Register a)
  have "\<forall>p \<in> set (AList.update (agent_id a) a (agents (coord s))). agent_id (snd p) = fst p"
    using set_alist_update_subset [of "agent_id a" a "agents (coord s)"] inv
    by (auto simp: sched_inv_def)
  then show ?thesis using inv ok Register pool_inv_registerAgent [of "coord s" a]
    by (simp add: sched_inv_def) (simp add: registerAgent_def)
next
  case (Unregister i)
  have "\<forall>p \<in> set (AList.delete i (agents (coord s))). agent_id (snd p) = fst p"
    using set_alist_delete_subset [of i "agents (coord s)"] inv
    by (auto simp: sched_inv_def)
  then show ?thesis using inv ok Unregister pool_inv_unregisterAgent [of "coord s" i]
    by (simp add: sched_inv_def) (auto simp add: unregisterAgent_def)
next
  case (Submit t p)
  define c0 where "c0 = (pushTask p t (coord s))\<lparr> totalTasks := totalTasks (coord s) + 1 \<rparr>"
  have "sched_inv c0 (running s)"
    using inv by (rule sched_inv_pool_eq) (auto simp: c0_def pushTask_def split: priority.splits)
  then have "sched_inv (fst (processTasks c0))
               (running s @ (case snd (processTasks c0) of None \<Rightarrow> [] | Some x \<Rightarrow> [x]))"
    by (rule sched_inv_processTasks) simp
  then show ?thesis using Submit
    by (auto simp: submitTask_def c0_def started_def split: option.splits)
next
  case (Settle i success)
  show ?thesis
  proof (cases "i < length (running s)")
    case False
    then show ?thesis using inv Settle by simp
  next
    case True
    define a where "a = fst (running s ! i)"
    define rs' where "rs' = take i (running s) @ drop (Suc i) (running s)"
    define c0 where "c0 = updateMetrics success (coord s)"
    define c1 where "c1 = markAgentIdle a c0"
    have inv0: "sched_inv c0 (running s)"
      using inv by (rule sched_inv_pool_eq) (auto simp: c0_def updateMetrics_def)
    have split: "running s = take i (running s) @ (running s ! i) # drop (Suc i) (running s)"
      using True by (simp add: id_take_nth_drop)
    have dist: "distinct (map fst (take i (running s)) @ a # map fst (drop (Suc i) (running s)))"
      using inv0 split unfolding a_def sched_inv_def
      by (metis map_append list.simps(9))
    have a_notin: "a \<notin> fst ` set rs'" using dist by (auto simp: rs'_def)
    have dist': "distinct (map fst rs')" using dist by (auto simp: rs'_def)
    have sub: "set rs' \<subseteq> set (running s)"
      by (auto simp: rs'_def dest: in_set_takeD in_set_dropD)
    have a_act: "a \<in> set (activeAgents c0)"
      using inv0 True by (auto simp: sched_inv_def a_def)
    then have a_reg: "a \<in> fst ` set (agents c0)"
      using inv0 by (auto simp: sched_inv_def pool_inv_def)
    have pool1: "pool_inv c1" unfolding c1_def
      using inv0 a_reg by (intro pool_inv_markAgentIdle) (simp_all add: sched_inv_def)
    have ag1: "agents c1 = agents c0" by (simp add: c1_def markAgentIdle_def Let_def)
    have act1: "set (activeAgents c0) - {a} \<subseteq> set (activeAgents c1)"
      by (auto simp: c1_def markAgentIdle_def Let_def)
    have "fst ` set rs' \<subseteq> set (activeAgents c0) - {a}"
      using sub a_notin inv0 unfolding sched_inv_def by blast
    then have "fst ` set rs' \<subseteq> set (activeAgents c1)" using act1 by blast
    then have inv1: "sched_inv c1 rs'"
      using pool1 ag1 dist' inv0 by (simp add: sched_inv_def)
    then have "sched_inv (fst (processTasks c1))
               (rs' @ (case snd (processTasks c1) of None \<Rightarrow> [] | Some x \<Rightarrow> [x]))"
      by (rule sched_inv_processTasks) simp
    then show ?thesis using Settle True
      by (auto simp: taskSettled_def c1_def c0_def a_def rs'_def started_def split: option.splits)
  qed
qed

lemma sched_inv_run:
  "sched_inv (coord s) (running s) \<Longrightarrow> permitted_run s evs \<Longrightarrow>
     sched_inv (coord (run s evs)) (running (run s evs))"
proof (induction evs arbitrary: s)
  case Nil
  then show ?case by (simp add: run_def)
next
  case (Cons e evs)
  from Cons.prems have "sched_inv (coord (step s e)) (running (step s e))"
    by (auto intro: sched_inv_step)
  then have "sched_inv (coord (run (step s e) evs)) (running (run (step s e) evs))"
    using Cons.prems by (intro Cons.IH) simp_all
  then show ?case by (simp add: run_def)
qed

lemma sched_inv_new: "sched_inv (coord (new_sched n)) (running (new_sched n))"
  by (simp add: new_sched_def new_coordinator_def sched_inv_def pool_inv_def)

subsection \<open>C5: idle and active agents partition the registered agents\<close>

text \<open>
  C5 (as stated, refuted).  The claim: in every reachable state between task executions
  the idle and the active set are disjoint and their union is the set of registered
  agents, and \<open>registerAgent\<close>, \<open>unregisterAgent\<close> and the busy/idle transitions around
  an execution each preserve this.  First conjunct: an agent is unregistered while its
  task runs; when the task settles, \<open>markAgentIdle\<close> puts the id back into the idle set
  although the agent map is empty, and no execution is in flight.  Second conjunct: that
  \<open>markAgentIdle\<close> step alone, from a state where the invariant holds.  Third conjunct:
  registering an agent again while it is active puts its id into both sets.
\<close>

theorem pool_invariant_counterexample:
  "(let s = run (new_sched 10)
              [Register ex_agentA, Submit (ex_task ''T0'') Medium, Unregister ''A'', Settle 0 True]
    in running s = [] \<and> agents (coord s) = [] \<and> idleAgents (coord s) = [''A'']
       \<and> \<not> pool_inv (coord s))
   \<and> (let c = coord (run (new_sched 10)
                   [Register ex_agentA, Submit (ex_task ''T0'') Medium, Unregister ''A''])
      in pool_inv c \<and> \<not> pool_inv (markAgentIdle ''A'' c))
   \<and> (let c = coord (run (new_sched 10) [Register ex_agentA, Submit (ex_task ''T0'') Medium])
      in pool_inv c \<and> \<not> pool_inv (registerAgent ex_agentA c))"
  by code_simp

text \<open>
  C5 (amended).  \<open>registerAgent\<close> of an agent that is not active, \<open>unregisterAgent\<close>,
  \<open>markAgentBusy\<close> of a registered agent and \<open>markAgentIdle\<close> of a registered agent
  each preserve the invariant; and it holds in every state reached from the empty
  coordinator by registrations, unregistrations, submissions and settled executions in
  which no agent is registered again or unregistered while it is active.
\<close>

theorem pool_invariant_amended:
  "(pool_inv c \<and> agent_id a \<notin> set (activeAgents c) \<longrightarrow> pool_inv (registerAgent a c))
   \<and> (pool_inv c \<longrightarrow> pool_inv (unregisterAgent i c))
   \<and> (pool_inv c \<and> i \<in> fst ` set (agents c) \<longrightarrow> pool_inv (markAgentBusy i c))
   \<and> (pool_inv c \<and> i \<in> fst ` set (agents c) \<longrightarrow> pool_inv (markAgentIdle i c))
   \<and> (permitted_run (new_sched n) evs \<longrightarrow> pool_inv (coord (run (new_sched n) evs)))"
proof -
  have "permitted_run (new_sched n) evs \<longrightarrow> pool_inv (coord (run (new_sched n) evs))"
    using sched_inv_run [OF sched_inv_new, of n evs] by (simp add: sched_inv_def)
  then show ?thesis
    using pool_inv_registerAgent pool_inv_unregisterAgent pool_inv_markAgentBusy
      pool_inv_markAgentIdle by blast
qed

theorem pool_invariant_amended_witness:
  "permitted_run (new_sched 10)
     [Register ex_agentA, Register ex_agentB, Submit (ex_task ''T0'') Medium,
      Unregister ''B'', Settle 0 True]
   \<and> pool_inv (coord (run (new_sched 10)
     [Register ex_agentA, Register ex_agentB, Submit (ex_task ''T0'') Medium,
      Unregister ''B'', Settle 0 True]))
   \<and> idleAgents (coord (run (new_sched 10)
     [Register ex_agentA, Register ex_agentB, Submit (ex_task ''T0'') Medium,
      Unregister ''B'', Settle 0 True])) = [''A'']"
proof -
  have p: "permitted_run (new_sched 10)
     [Register ex_agentA, Register ex_agentB, Submit (ex_task ''T0'') Medium,
      Unregister ''B'', Settle 0 True]"
    by code_simp
  have i: "idleAgents (coord (run (new_sched 10)
     [Register ex_agentA, Register ex_agentB, Submit (ex_task ''T0'') Medium,
      Unregister ''B'', Settle 0 True])) = [''A'']"
    by code_simp
  show ?thesis
    using p i pool_invariant_amended [of _ _ _ 10
      "[Register ex_agentA, Register ex_agentB, Submit (ex_task ''T0'') Medium,
        Unregister ''B'', Settle 0 True]"]
    by blast
qed

subsection \<open>C6: unregistering an agent\<close>




section \<open>Verification: the memory store\<close>

subsection \<open>Eviction\<close>






















subsection \<open>C3: the capacity bound of \<open>store\<close>\<close>




subsection \<open>Retrieval\<close>

















subsection \<open>C7: the ranking of \<open>retrieve\<close>\<close>




subsection \<open>C10: \<open>import\<close> bypasses the capacity bound\<close>

lemma import_one_memories:
  "memories (import_one x m) = AList.update (mem_id x) x (memories m)"
  by (simp add: import_one_def Let_def split: option.splits)

lemma import_one_config: "mem_config (import_one x m) = mem_config m"
  by (simp add: import_one_def Let_def split: option.splits)

lemma import_memories_memories:
  "memories (import_memories ms m) = foldl (\<lambda>al x. AList.update (mem_id x) x al) (memories m) ms"
  unfolding import_memories_def
  by (induction ms arbitrary: m) (simp_all add: import_one_memories)

lemma import_memories_config: "mem_config (import_memories ms m) = mem_config m"
  unfolding import_memories_def
  by (induction ms arbitrary: m) (simp_all add: import_one_config)

lemma find_snoc:
  "List.find P (xs @ [a]) = (case List.find P xs of Some x \<Rightarrow> Some x | None \<Rightarrow> if P a then Some a else None)"
  by (induction xs) auto

lemma map_of_foldl_update:
  "map_of (foldl (\<lambda>al x. AList.update (mem_id x) x al) al ms) k
     = (case List.find (\<lambda>x. mem_id x = k) (rev ms) of Some x \<Rightarrow> Some x | None \<Rightarrow> map_of al k)"
proof (induction ms arbitrary: al)
  case Nil
  then show ?case by simp
next
  case (Cons a ms)
  show ?case
    by (simp add: Cons.IH find_snoc update_conv' split: option.splits)
qed

lemma length_alist_update_ge: "length al \<le> length (AList.update k v al)"
  by (induction al) auto

lemma length_foldl_update_ge:
  "length al \<le> length (foldl (\<lambda>al x. AList.update (mem_id x) x al) al ms)"
proof (induction ms arbitrary: al)
  case Nil
  then show ?case by simp
next
  case (Cons a ms)
  have "length al \<le> length (AList.update (mem_id a) a al)" by (rule length_alist_update_ge)
  also have "\<dots> \<le> length (foldl (\<lambda>al x. AList.update (mem_id x) x al) (AList.update (mem_id a) a al) ms)"
    by (rule Cons.IH)
  finally show ?case by simp
qed

lemma keys_foldl_update:
  "fst ` set (foldl (\<lambda>al x. AList.update (mem_id x) x al) al ms) = fst ` set al \<union> mem_id ` set ms"
  by (induction ms arbitrary: al) (auto simp: dom_update)

text \<open>
  C10.  \<open>import\<close> sets every given record under its id (of records with the same id the
  last one given stays), evicts nothing and does not read the configuration: the keys
  afterwards are the keys before together with the given ids, the number of records does
  not shrink, and there is a store within its capacity of at least one that exceeds it
  right after an \<open>import\<close>.
\<close>

theorem import_unbounded:
  "map_of (memories (import_memories ms m)) k
     = (case List.find (\<lambda>x. mem_id x = k) (rev ms) of
          Some x \<Rightarrow> Some x | None \<Rightarrow> map_of (memories m) k)
   \<and> fst ` set (memories (import_memories ms m)) = fst ` set (memories m) \<union> mem_id ` set ms
   \<and> length (memories m) \<le> length (memories (import_memories ms m))
   \<and> mem_config (import_memories ms m) = mem_config m
   \<and> (\<exists>ms' m'. 1 \<le> cfg_maxMemories (mem_config m')
         \<and> int (length (memories m')) \<le> cfg_maxMemories (mem_config m')
         \<and> cfg_maxMemories (mem_config (import_memories ms' m'))
              < int (length (memories (import_memories ms' m'))))"
proof -
  have ex: "1 \<le> cfg_maxMemories (mem_config (new_manager (ex_cfg 1)))
         \<and> int (length (memories (new_manager (ex_cfg 1)))) \<le> cfg_maxMemories (mem_config (new_manager (ex_cfg 1)))
         \<and> cfg_maxMemories (mem_config (import_memories [ex_memory ''m1'' 0 0, ex_memory ''m2'' 0 0] (new_manager (ex_cfg 1))))
              < int (length (memories (import_memories [ex_memory ''m1'' 0 0, ex_memory ''m2'' 0 0] (new_manager (ex_cfg 1)))))"
    by (simp add: import_memories_config import_memories_memories)
       (simp add: new_manager_def ex_cfg_def ex_memory_def)
  then have "\<exists>ms' m'. 1 \<le> cfg_maxMemories (mem_config m')
         \<and> int (length (memories m')) \<le> cfg_maxMemories (mem_config m')
         \<and> cfg_maxMemories (mem_config (import_memories ms' m'))
              < int (length (memories (import_memories ms' m')))" by blast
  then show ?thesis
    by (simp add: import_memories_memories import_memories_config map_of_foldl_update
        keys_foldl_update length_foldl_update_ge)
qed

theorem import_unbounded_witness:
  "map_of (memories (import_memories [ex_memory ''m1'' 0 0, ex_memory ''m2'' 0 0] (new_manager (ex_cfg 1)))) ''m2''
     = Some (ex_memory ''m2'' 0 0)
   \<and> length (memories (import_memories [ex_memory ''m1'' 0 0, ex_memory ''m2'' 0 0] (new_manager (ex_cfg 1)))) = 2
   \<and> cfg_maxMemories (mem_config (import_memories [ex_memory ''m1'' 0 0, ex_memory ''m2'' 0 0] (new_manager (ex_cfg 1)))) = 1"
proof -
  have f: "List.find (\<lambda>x. mem_id x = ''m2'') (rev [ex_memory ''m1'' 0 0, ex_memory ''m2'' 0 0])
           = Some (ex_memory ''m2'' 0 0)"
    by (simp add: ex_memory_def)
  have l: "length (memories (import_memories [ex_memory ''m1'' 0 0, ex_memory ''m2'' 0 0] (new_manager (ex_cfg 1)))) = 2"
    by (simp add: import_memories_memories new_manager_def ex_memory_def)
  have c: "cfg_maxMemories (mem_config (new_manager (ex_cfg 1))) = 1"
    by (simp add: new_manager_def ex_cfg_def)
  show ?thesis
    using import_unbounded [of "[ex_memory ''m1'' 0 0, ex_memory ''m2'' 0 0]" "new_manager (ex_cfg 1)" "''m2''"]
      f l c by simp
qed

section \<open>Verification: the inference coordinator\<close>

lemma updateEngineStatus_frame [simp]:
  "responseCache (updateEngineStatus i st j now c) = responseCache c"
  "ic_config (updateEngineStatus i st j now c) = ic_config c"
  "ic_metrics (updateEngineStatus i st j now c) = ic_metrics c"
  "jobQueue (updateEngineStatus i st j now c) = jobQueue c"
  "engines (updateEngineStatus i st j now c) = engines c"
  by (simp_all add: updateEngineStatus_def split: option.splits)

lemma countProcessed_frame [simp]:
  "responseCache (countProcessed i l c) = responseCache c"
  "ic_config (countProcessed i l c) = ic_config c"
  "ic_metrics (countProcessed i l c) = ic_metrics c"
  "jobQueue (countProcessed i l c) = jobQueue c"
  "engines (countProcessed i l c) = engines c"
  by (simp_all add: countProcessed_def split: option.splits)


lemma cacheResponse_config [simp]:
  "ic_config (cacheResponse request response now c) = ic_config c"
  by (simp add: cacheResponse_def Let_def)



lemma enqueueJob_frame [simp]:
  "responseCache (enqueueJob job c) = responseCache c"
  "ic_config (enqueueJob job c) = ic_config c"
  "engineStatus (enqueueJob job c) = engineStatus c"
  by (simp_all add: enqueueJob_def)

lemma executeJob_begin_frame [simp]:
  "responseCache (snd (executeJob_begin job engine now c)) = responseCache c"
  "ic_config (snd (executeJob_begin job engine now c)) = ic_config c"
  "engines (snd (executeJob_begin job engine now c)) = engines c"
  by (simp_all add: executeJob_begin_def Let_def)






subsection \<open>C4: a repeated request within the TTL\<close>



subsection \<open>C8: round-robin over three idle engines\<close>

lemma find_after_busy:
  assumes "\<forall>p \<in> set pre. es_status (snd p) \<noteq> Idle" "es_status s = Idle"
  shows "List.find (\<lambda>p. es_status (snd p) = Idle) (pre @ (i, s) # post) = Some (i, s)"
  using assms by (induction pre) auto

lemma map_of_after_prefix:
  "i \<notin> fst ` set pre \<Longrightarrow> map_of (pre @ (i, s) # post) i = Some s"
  by (induction pre) auto

lemma update_after_prefix:
  "i \<notin> fst ` set pre \<Longrightarrow> AList.update i v (pre @ (i, s) # post) = pre @ (i, v) # post"
  by (induction pre) auto

lemma cachedFor_cong:
  "responseCache c' = responseCache c \<Longrightarrow> ic_config c' = ic_config c \<Longrightarrow>
     cachedFor c' r t = cachedFor c r t"
  by (simp add: cachedFor_def)

lemma getEngineId_cong: "engines c' = engines c \<Longrightarrow> getEngineId c' e = getEngineId c e"
  by (simp add: getEngineId_def)

lemma submit_round_robin:
  assumes rr: "loadBalancing (ic_config c) = RoundRobin"
    and miss: "\<not> cachedFor c r t"
    and st: "engineStatus c = pre @ (i, s) # post"
    and busy: "\<forall>p \<in> set pre. es_status (snd p) \<noteq> Idle"
    and idle: "es_status s = Idle"
    and fresh: "i \<notin> fst ` set pre"
    and eng: "map_of (engines c) i = Some e" "getEngineId c e = i"
  shows "fst (submit r p j t c)
           = Started \<lparr> frame_job = \<lparr> job_id = j, job_request = r, job_priority = p, job_createdAt = t \<rparr>,
                       frame_engineId = i, frame_startTime = t \<rparr>"
    and "engineStatus (snd (submit r p j t c))
           = pre @ (i, s\<lparr> es_status := Processing, es_currentJob := Some j, es_lastActive := t \<rparr>) # post"
    and "engines (snd (submit r p j t c)) = engines c"
    and "responseCache (snd (submit r p j t c)) = responseCache c"
    and "ic_config (snd (submit r p j t c)) = ic_config c"
proof -
  define c2 where "c2 = (if enableCaching (ic_config c)
                        then c\<lparr> ic_metrics := (ic_metrics c)\<lparr> cacheMisses := cacheMisses (ic_metrics c) + 1 \<rparr> \<rparr>
                        else c)\<lparr> ic_metrics := (ic_metrics (if enableCaching (ic_config c)
                        then c\<lparr> ic_metrics := (ic_metrics c)\<lparr> cacheMisses := cacheMisses (ic_metrics c) + 1 \<rparr> \<rparr>
                        else c))\<lparr> totalJobs := totalJobs (ic_metrics (if enableCaching (ic_config c)
                        then c\<lparr> ic_metrics := (ic_metrics c)\<lparr> cacheMisses := cacheMisses (ic_metrics c) + 1 \<rparr> \<rparr>
                        else c)) + 1 \<rparr> \<rparr>"
  have c2: "engineStatus c2 = engineStatus c" "engines c2 = engines c"
    "ic_config c2 = ic_config c" "responseCache c2 = responseCache c"
    by (simp_all add: c2_def)
  have found: "findAvailableEngine c2 = Some e"
    using rr eng(1) find_after_busy [OF busy idle, of i post]
    by (simp add: findAvailableEngine_def findRoundRobin_def c2 st)
  have gid: "getEngineId c2 e = i" using eng(2) by (simp add: getEngineId_def c2)
  have hitNone: "(if enableCaching (ic_config c)
                 then (case map_of (responseCache c) (getCacheKey r) of
                         Some cached \<Rightarrow>
                           if t - cached_timestamp cached < 300000 then Some cached else None
                       | None \<Rightarrow> None)
                 else None) = None"
    using miss by (auto simp: cachedFor_def split: option.splits)
  have sub: "submit r p j t c
      = (Started (fst (executeJob_begin \<lparr> job_id = j, job_request = r, job_priority = p, job_createdAt = t \<rparr> e t c2)),
         snd (executeJob_begin \<lparr> job_id = j, job_request = r, job_priority = p, job_createdAt = t \<rparr> e t c2))"
    unfolding submit_def Let_def hitNone using found by (simp add: c2_def)
  show "fst (submit r p j t c)
           = Started \<lparr> frame_job = \<lparr> job_id = j, job_request = r, job_priority = p, job_createdAt = t \<rparr>,
                       frame_engineId = i, frame_startTime = t \<rparr>"
    by (simp add: sub executeJob_begin_def Let_def gid)
  show "engineStatus (snd (submit r p j t c))
           = pre @ (i, s\<lparr> es_status := Processing, es_currentJob := Some j, es_lastActive := t \<rparr>) # post"
  proof -
    have look: "map_of (engineStatus c2) i = Some s"
      unfolding c2 st using fresh by (rule map_of_after_prefix)
    have upd: "AList.update i (s\<lparr> es_status := Processing, es_currentJob := Some j, es_lastActive := t \<rparr>)
                 (engineStatus c2)
               = pre @ (i, s\<lparr> es_status := Processing, es_currentJob := Some j, es_lastActive := t \<rparr>) # post"
      unfolding c2 st using fresh by (rule update_after_prefix)
    show ?thesis
      by (simp add: sub executeJob_begin_def Let_def gid updateEngineStatus_def look upd)
  qed
  show "engines (snd (submit r p j t c)) = engines c" by (simp add: sub c2)
  show "responseCache (snd (submit r p j t c)) = responseCache c" by (simp add: sub c2)
  show "ic_config (snd (submit r p j t c)) = ic_config c" by (simp add: sub c2)
qed

text \<open>
  C8.  Under the round-robin policy, with exactly three engines registered in the order
  \<open>i1\<close>, \<open>i2\<close>, \<open>i3\<close>, all idle, each stored as an engine object of its own, three
  submissions whose requests are not cached, none settling before the next is
  submitted, start on \<open>i1\<close>, \<open>i2\<close> and \<open>i3\<close> in this order: each \<open>submit\<close> marks
  its engine as processing before it returns, and the next selection takes the first
  engine still idle.
\<close>

theorem round_robin_distinct_engines:
  "loadBalancing (ic_config c) = RoundRobin
   \<and> engineStatus c = [(i1, s1), (i2, s2), (i3, s3)]
   \<and> es_status s1 = Idle \<and> es_status s2 = Idle \<and> es_status s3 = Idle
   \<and> distinct [i1, i2, i3]
   \<and> map_of (engines c) i1 = Some e1 \<and> getEngineId c e1 = i1
   \<and> map_of (engines c) i2 = Some e2 \<and> getEngineId c e2 = i2
   \<and> map_of (engines c) i3 = Some e3 \<and> getEngineId c e3 = i3
   \<and> \<not> cachedFor c r1 t1 \<and> \<not> cachedFor c r2 t2 \<and> \<not> cachedFor c r3 t3 \<longrightarrow>
     (let x1 = submit r1 p1 j1 t1 c;
          x2 = submit r2 p2 j2 t2 (snd x1);
          x3 = submit r3 p3 j3 t3 (snd x2)
      in fst x1 = Started \<lparr> frame_job = \<lparr> job_id = j1, job_request = r1, job_priority = p1,
                                            job_createdAt = t1 \<rparr>,
                             frame_engineId = i1, frame_startTime = t1 \<rparr>
         \<and> fst x2 = Started \<lparr> frame_job = \<lparr> job_id = j2, job_request = r2, job_priority = p2,
                                              job_createdAt = t2 \<rparr>,
                               frame_engineId = i2, frame_startTime = t2 \<rparr>
         \<and> fst x3 = Started \<lparr> frame_job = \<lparr> job_id = j3, job_request = r3, job_priority = p3,
                                              job_createdAt = t3 \<rparr>,
                               frame_engineId = i3, frame_startTime = t3 \<rparr>
         \<and> map (\<lambda>p. (fst p, es_status (snd p), es_currentJob (snd p))) (engineStatus (snd x3))
             = [(i1, Processing, Some j1), (i2, Processing, Some j2), (i3, Processing, Some j3)])"
proof
  assume h: "loadBalancing (ic_config c) = RoundRobin
   \<and> engineStatus c = [(i1, s1), (i2, s2), (i3, s3)]
   \<and> es_status s1 = Idle \<and> es_status s2 = Idle \<and> es_status s3 = Idle
   \<and> distinct [i1, i2, i3]
   \<and> map_of (engines c) i1 = Some e1 \<and> getEngineId c e1 = i1
   \<and> map_of (engines c) i2 = Some e2 \<and> getEngineId c e2 = i2
   \<and> map_of (engines c) i3 = Some e3 \<and> getEngineId c e3 = i3
   \<and> \<not> cachedFor c r1 t1 \<and> \<not> cachedFor c r2 t2 \<and> \<not> cachedFor c r3 t3"
  define x1 where "x1 = submit r1 p1 j1 t1 c"
  define x2 where "x2 = submit r2 p2 j2 t2 (snd x1)"
  define x3 where "x3 = submit r3 p3 j3 t3 (snd x2)"
  define s1' where "s1' = s1\<lparr> es_status := Processing, es_currentJob := Some j1, es_lastActive := t1 \<rparr>"
  define s2' where "s2' = s2\<lparr> es_status := Processing, es_currentJob := Some j2, es_lastActive := t2 \<rparr>"
  define s3' where "s3' = s3\<lparr> es_status := Processing, es_currentJob := Some j3, es_lastActive := t3 \<rparr>"
  have rr: "loadBalancing (ic_config c) = RoundRobin" using h by simp
  have "distinct [i1, i2, i3]" using h by simp
  then have ne: "i2 \<noteq> i1" "i3 \<noteq> i1" "i3 \<noteq> i2" by auto
  have st: "engineStatus c = [] @ (i1, s1) # [(i2, s2), (i3, s3)]" using h by simp
  note a = submit_round_robin [OF rr _ st, of r1 t1 e1 p1 j1, folded x1_def s1'_def]
  have a1: "fst x1 = Started \<lparr> frame_job = \<lparr> job_id = j1, job_request = r1, job_priority = p1,
                                            job_createdAt = t1 \<rparr>,
                             frame_engineId = i1, frame_startTime = t1 \<rparr>"
    and st1: "engineStatus (snd x1) = [(i1, s1')] @ (i2, s2) # [(i3, s3)]"
    and en1: "engines (snd x1) = engines c"
    and ca1: "responseCache (snd x1) = responseCache c"
    and cf1: "ic_config (snd x1) = ic_config c"
    using a h by simp_all
  have rr1: "loadBalancing (ic_config (snd x1)) = RoundRobin" using rr cf1 by simp
  have miss2: "\<not> cachedFor (snd x1) r2 t2" using h cachedFor_cong [OF ca1 cf1] by simp
  have busy1: "\<forall>p \<in> set [(i1, s1')]. es_status (snd p) \<noteq> Idle" by (simp add: s1'_def)
  note b = submit_round_robin [OF rr1 miss2 st1 busy1, of e2 p2 j2, folded x2_def s2'_def]
  have b1: "fst x2 = Started \<lparr> frame_job = \<lparr> job_id = j2, job_request = r2, job_priority = p2,
                                              job_createdAt = t2 \<rparr>,
                               frame_engineId = i2, frame_startTime = t2 \<rparr>"
    and st2: "engineStatus (snd x2) = [(i1, s1'), (i2, s2')] @ (i3, s3) # []"
    and en2: "engines (snd x2) = engines c"
    and ca2: "responseCache (snd x2) = responseCache c"
    and cf2: "ic_config (snd x2) = ic_config c"
    using b h ne en1 ca1 cf1 getEngineId_cong [OF en1] by simp_all
  have rr2: "loadBalancing (ic_config (snd x2)) = RoundRobin" using rr cf2 by simp
  have miss3: "\<not> cachedFor (snd x2) r3 t3" using h cachedFor_cong [OF ca2 cf2] by simp
  have busy2: "\<forall>p \<in> set [(i1, s1'), (i2, s2')]. es_status (snd p) \<noteq> Idle"
    by (simp add: s1'_def s2'_def)
  note d = submit_round_robin [OF rr2 miss3 st2 busy2, of e3 p3 j3, folded x3_def s3'_def]
  have d1: "fst x3 = Started \<lparr> frame_job = \<lparr> job_id = j3, job_request = r3, job_priority = p3,
                                              job_createdAt = t3 \<rparr>,
                               frame_engineId = i3, frame_startTime = t3 \<rparr>"
    and st3: "engineStatus (snd x3) = [(i1, s1'), (i2, s2')] @ (i3, s3') # []"
    using d h ne en2 getEngineId_cong [OF en2] by simp_all
  have "map (\<lambda>p. (fst p, es_status (snd p), es_currentJob (snd p))) (engineStatus (snd x3))
             = [(i1, Processing, Some j1), (i2, Processing, Some j2), (i3, Processing, Some j3)]"
    by (simp add: st3 s1'_def s2'_def s3'_def)
  then show "(let x1 = submit r1 p1 j1 t1 c;
          x2 = submit r2 p2 j2 t2 (snd x1);
          x3 = submit r3 p3 j3 t3 (snd x2)
      in fst x1 = Started \<lparr> frame_job = \<lparr> job_id = j1, job_request = r1, job_priority = p1,
                                            job_createdAt = t1 \<rparr>,
                             frame_engineId = i1, frame_startTime = t1 \<rparr>
         \<and> fst x2 = Started \<lparr> frame_job = \<lparr> job_id = j2, job_request = r2, job_priority = p2,
                                              job_createdAt = t2 \<rparr>,
                               frame_engineId = i2, frame_startTime = t2 \<rparr>
         \<and> fst x3 = Started \<lparr> frame_job = \<lparr> job_id = j3, job_request = r3, job_priority = p3,
                                              job_createdAt = t3 \<rparr>,
                               frame_engineId = i3, frame_startTime = t3 \<rparr>
         \<and> map (\<lambda>p. (fst p, es_status (snd p), es_currentJob (snd p))) (engineStatus (snd x3))
             = [(i1, Processing, Some j1), (i2, Processing, Some j2), (i3, Processing, Some j3)])"
    unfolding Let_def x1_def [symmetric] x2_def [symmetric] x3_def [symmetric]
    using a1 b1 d1 by simp
qed

theorem round_robin_distinct_engines_witness:
  "loadBalancing (ic_config ex_ic) = RoundRobin
   \<and> map fst (engineStatus ex_ic) = [''engine_0'', ''engine_1'', ''engine_2'']
   \<and> list_all (\<lambda>p. es_status (snd p) = Idle) (engineStatus ex_ic)
   \<and> (let x1 = submit (ex_request ''a'') 5 ''j1'' 1 ex_ic;
           x2 = submit (ex_request ''b'') 5 ''j2'' 2 (snd x1);
           x3 = submit (ex_request ''c'') 5 ''j3'' 3 (snd x2)
       in map (\<lambda>p. (fst p, es_status (snd p), es_currentJob (snd p))) (engineStatus (snd x3))
             = [(''engine_0'', Processing, Some ''j1''), (''engine_1'', Processing, Some ''j2''),
                (''engine_2'', Processing, Some ''j3'')])"
proof -
  define s where "s = (\<lambda>i. \<lparr> es_id = ''engine_'' @ decimal i, es_modelName = ''model'',
      es_status = Idle, es_currentJob = None, es_processedJobs = 0, es_averageLatency = 0,
      es_lastActive = 0 \<rparr>)"
  have rr: "loadBalancing (ic_config ex_ic) = RoundRobin" by code_simp
  have st: "engineStatus ex_ic = [(''engine_0'', s 0), (''engine_1'', s 1), (''engine_2'', s 2)]"
    unfolding s_def by code_simp
  have keys: "map fst (engineStatus ex_ic) = [''engine_0'', ''engine_1'', ''engine_2'']"
    by (simp add: st)
  have idle: "list_all (\<lambda>p. es_status (snd p) = Idle) (engineStatus ex_ic)"
    by (simp add: st s_def)
  have e0: "map_of (engines ex_ic) ''engine_0'' = Some 0 \<and> getEngineId ex_ic 0 = ''engine_0''"
    by code_simp
  have e1: "map_of (engines ex_ic) ''engine_1'' = Some 1 \<and> getEngineId ex_ic 1 = ''engine_1''"
    by code_simp
  have e2: "map_of (engines ex_ic) ''engine_2'' = Some 2 \<and> getEngineId ex_ic 2 = ''engine_2''"
    by code_simp
  have miss: "\<not> cachedFor ex_ic (ex_request ''a'') 1 \<and> \<not> cachedFor ex_ic (ex_request ''b'') 2
      \<and> \<not> cachedFor ex_ic (ex_request ''c'') 3"
    by code_simp
  have "(let x1 = submit (ex_request ''a'') 5 ''j1'' 1 ex_ic;
           x2 = submit (ex_request ''b'') 5 ''j2'' 2 (snd x1);
           x3 = submit (ex_request ''c'') 5 ''j3'' 3 (snd x2)
       in map (\<lambda>p. (fst p, es_status (snd p), es_currentJob (snd p))) (engineStatus (snd x3))
             = [(''engine_0'', Processing, Some ''j1''), (''engine_1'', Processing, Some ''j2''),
                (''engine_2'', Processing, Some ''j3'')])"
    using round_robin_distinct_engines [of ex_ic "''engine_0''" "s 0" "''engine_1''" "s 1"
        "''engine_2''" "s 2" 0 1 2 "ex_request ''a''" 1 "ex_request ''b''" 2 "ex_request ''c''" 3
        5 "''j1''" 5 "''j2''" 5 "''j3''"]
      rr st e0 e1 e2 miss
    unfolding Let_def by (simp add: s_def)
  then show ?thesis using rr keys idle by simp
qed

section \<open>Verification: the message router\<close>





subsection \<open>C9: single-flight flush in urgency order\<close>



end
